theory Spec2Isabelle
  imports Complex_Main "HOL-Library.Product_Lexorder" "HOL-Library.Multiset"
begin

section \<open>Data model of dashboard.py\<close>

text \<open>
  The dashboard keeps one pandas DataFrame.  A cell of a float column is a finite
  number, NaN (pandas' missing value) or one of the two infinities; a cell of an
  object column is a string (or NaN where the CSV cell is empty).  Finite numbers
  are modelled as reals: rounding and overflow of binary floating point are not
  modelled, the special values are.
\<close>

datatype cell = Num real | NaN | PInf | NInf | Str string

text \<open>
  The exceptions the script can stop with.  \<open>FileNotFoundError\<close> is the
  branch of lines 18-20 (\<open>st.error\<close>, \<open>st.stop\<close>);
  \<open>DateParseError\<close> is \<open>pd.to_datetime\<close> refusing a value.
\<close>

datatype error = FileNotFoundError | DateParseError | KeyError string
  | TypeError | ZeroDivisionError

text \<open>
  A timestamp is (year, month, day, hour, minute, second), ordered
  lexicographically, which is chronological order.
\<close>

type_synonym timestamp = "int \<times> nat \<times> nat \<times> nat \<times> nat \<times> nat"

fun ts_year :: "timestamp \<Rightarrow> int" where
  "ts_year (y, mo, d, h, mi, s) = y"

fun ts_month :: "timestamp \<Rightarrow> nat" where
  "ts_month (y, mo, d, h, mi, s) = mo"

fun ts_day :: "timestamp \<Rightarrow> nat" where
  "ts_day (y, mo, d, h, mi, s) = d"

fun ts_hour :: "timestamp \<Rightarrow> nat" where
  "ts_hour (y, mo, d, h, mi, s) = h"

text \<open>
  A row is its index value (the activity's timestamp) and its cells by column
  label.  \<open>columns\<close> lists the labels the frame has, in order; the source reads a
  label only after testing \<open>in df.columns\<close> or creating it, and where it does not
  (lines 23, 118) the model raises \<open>KeyError\<close>.
\<close>

type_synonym row = "string \<Rightarrow> cell"

record dataframe =
  columns :: "string list"
  rows :: "(timestamp \<times> row) list"

text \<open>
  What \<open>pd.read_csv("activities.csv")\<close> yields: no file, or the header's labels
  and the data rows.  Each row carries the outcome of \<open>pd.to_datetime\<close> on its
  \<open>Activity Date\<close> cell (\<open>None\<close>: the parser raises).  Rows without a date
  (pandas' NaT) are outside the model.
\<close>

datatype csv_file = Missing | Csv "string list" "(timestamp option \<times> row) list"

subsection \<open>Errors as values\<close>

definition and_then :: "error + 'a \<Rightarrow> ('a \<Rightarrow> error + 'b) \<Rightarrow> error + 'b" where
  "and_then m f = (case m of Inl e \<Rightarrow> Inl e | Inr x \<Rightarrow> f x)"

fun traverse :: "('a \<Rightarrow> error + 'b) \<Rightarrow> 'a list \<Rightarrow> error + 'b list" where
  "traverse f [] = Inr []"
| "traverse f (x # xs) =
     (case f x of
        Inl e \<Rightarrow> Inl e
      | Inr y \<Rightarrow> (case traverse f xs of Inl e \<Rightarrow> Inl e | Inr ys \<Rightarrow> Inr (y # ys)))"

subsection \<open>Arithmetic on cells\<close>

text \<open>
  Python's \<open>a / b\<close> on floats: a string operand raises \<open>TypeError\<close>, a zero
  divisor raises \<open>ZeroDivisionError\<close>, the special values follow IEEE 754.  The
  element-wise \<open>Series / 1000\<close> and \<open>Series / 3600\<close> of lines 38 and 46 agree
  with it, the divisor being a non-zero constant.
\<close>

fun truediv :: "cell \<Rightarrow> cell \<Rightarrow> error + cell" where
  "truediv (Str s) b = Inl TypeError"
| "truediv a (Str s) = Inl TypeError"
| "truediv a (Num y) =
     (if y = 0 then Inl ZeroDivisionError
      else case a of
        Num x \<Rightarrow> Inr (Num (x / y))
      | PInf \<Rightarrow> Inr (if 0 < y then PInf else NInf)
      | NInf \<Rightarrow> Inr (if 0 < y then NInf else PInf)
      | _ \<Rightarrow> Inr NaN)"
| "truediv a NaN = Inr NaN"
| "truediv (Num x) b = Inr (Num 0)"
| "truediv a b = Inr NaN"

text \<open>\<open>Series * 3.6\<close> (line 60), element-wise.\<close>

fun mul_cell :: "cell \<Rightarrow> real \<Rightarrow> error + cell" where
  "mul_cell (Str s) k = Inl TypeError"
| "mul_cell (Num x) k = Inr (Num (x * k))"
| "mul_cell NaN k = Inr NaN"
| "mul_cell PInf k = Inr (if 0 < k then PInf else if k < 0 then NInf else NaN)"
| "mul_cell NInf k = Inr (if 0 < k then NInf else if k < 0 then PInf else NaN)"

text \<open>\<open>x > k\<close>: false on NaN, \<open>TypeError\<close> on a string.\<close>

fun gt_cell :: "cell \<Rightarrow> real \<Rightarrow> error + bool" where
  "gt_cell (Num x) k = Inr (k < x)"
| "gt_cell NaN k = Inr False"
| "gt_cell PInf k = Inr True"
| "gt_cell NInf k = Inr False"
| "gt_cell (Str s) k = Inl TypeError"

text \<open>\<open>fillna(0)\<close> and \<open>replace([np.inf, -np.inf], 0)\<close> on one cell.\<close>

fun fillna :: "cell \<Rightarrow> cell" where
  "fillna NaN = Num 0"
| "fillna c = c"

fun replace_inf :: "cell \<Rightarrow> cell" where
  "replace_inf PInf = Num 0"
| "replace_inf NInf = Num 0"
| "replace_inf c = c"

subsection \<open>Calendar fields of the index\<close>

definition month_names :: "string list" where
  "month_names = [''January'', ''February'', ''March'', ''April'', ''May'', ''June'',
     ''July'', ''August'', ''September'', ''October'', ''November'', ''December'']"

definition day_names :: "string list" where
  "day_names = [''Monday'', ''Tuesday'', ''Wednesday'', ''Thursday'', ''Friday'',
     ''Saturday'', ''Sunday'']"

definition month_name :: "timestamp \<Rightarrow> string" where
  "month_name t = month_names ! ((ts_month t - 1) mod 12)"

text \<open>Days since 1970-01-01 in the proleptic Gregorian calendar.\<close>

definition days_from_civil :: "timestamp \<Rightarrow> int" where
  "days_from_civil t =
     (let m = int (ts_month t);
          y = (if m \<le> 2 then ts_year t - 1 else ts_year t);
          era = y div 400;
          yoe = y - era * 400;
          doy = (153 * (if 2 < m then m - 3 else m + 9) + 2) div 5 + int (ts_day t) - 1;
          doe = yoe * 365 + yoe div 4 - yoe div 100 + doy
      in era * 146097 + doe - 719468)"

definition day_name :: "timestamp \<Rightarrow> string" where
  "day_name t = day_names ! nat ((days_from_civil t + 3) mod 7)"

subsection \<open>Sorting the index\<close>

text \<open>
  \<open>sort_index\<close> is called with pandas' default \<open>kind='quicksort'\<close>, which hands
  the keys to \<open>numpy.argsort\<close>.  That routine is a parameter of the model: it
  returns the positions of the keys in ascending key order, and it does not
  promise an order among equal keys.
\<close>

type_synonym argsort = "timestamp list \<Rightarrow> nat list"

definition sorts :: "argsort \<Rightarrow> bool" where
  "sorts a \<longleftrightarrow>
     (\<forall>ks. mset (a ks) = mset [0..<length ks] \<and> sorted (map (\<lambda>i. ks ! i) (a ks)))"

text \<open>One admissible routine: insertion sort, which keeps equal keys in order.\<close>

definition stable_argsort :: argsort where
  "stable_argsort ks = map snd (sort_key fst (zip ks [0..<length ks]))"

text \<open>Another admissible routine: it lists equal keys in reverse order.\<close>

definition rev_ties_argsort :: argsort where
  "rev_ties_argsort ks = map snd (sort_key fst (rev (zip ks [0..<length ks])))"

text \<open>
  \<open>DataFrame.take\<close>: the rows at the given positions.  A sorting routine returns
  positions of the frame only; any other position is passed over.
\<close>

definition take_rows :: "nat list \<Rightarrow> 'a list \<Rightarrow> 'a list" where
  "take_rows idx xs = map (\<lambda>i. xs ! i) (filter (\<lambda>i. i < length xs) idx)"

text \<open>
  \<open>sort_index(ascending=...)\<close>: pandas returns the frame as it is when the index
  is already monotonic in the wanted direction; otherwise, for a descending
  sort, it reverses the keys, sorts ascending and reverses the result.
\<close>

definition sort_index :: "argsort \<Rightarrow> bool \<Rightarrow> dataframe \<Rightarrow> dataframe" where
  "sort_index a ascending df =
     (let ks = map fst (rows df); n = length ks in
      if ascending then
        (if sorted ks then df else df\<lparr>rows := take_rows (a ks) (rows df)\<rparr>)
      else
        (if sorted (rev ks) then df
         else df\<lparr>rows := take_rows (rev (map (\<lambda>p. n - 1 - p) (a (rev ks)))) (rows df)\<rparr>))"

subsection \<open>Column assignment\<close>

text \<open>
  \<open>df[c] = ...\<close>: an existing column keeps its place, a new one is appended.  The
  right-hand side is computed row by row; an exception in any row aborts.
\<close>

definition insert_col :: "string list \<Rightarrow> string \<Rightarrow> string list" where
  "insert_col cols c = (if c \<in> set cols then cols else cols @ [c])"

definition set_column ::
  "string \<Rightarrow> (timestamp \<times> row \<Rightarrow> error + cell) \<Rightarrow> dataframe \<Rightarrow> error + dataframe" where
  "set_column c f df =
     and_then
       (traverse (\<lambda>x. and_then (f x) (\<lambda>v. Inr (fst x, (snd x)(c := v)))) (rows df))
       (\<lambda>rs. Inr \<lparr>columns = insert_col (columns df) c, rows = rs\<rparr>)"

definition has_column :: "dataframe \<Rightarrow> string \<Rightarrow> bool" where
  "has_column df c \<longleftrightarrow> c \<in> set (columns df)"

section \<open>load_data (lines 15-84)\<close>

text \<open>Lines 23-25: parse the dates, make them the index, sort by it.\<close>

fun to_datetime :: "(timestamp option \<times> row) list \<Rightarrow> error + (timestamp \<times> row) list" where
  "to_datetime [] = Inr []"
| "to_datetime ((None, r) # xs) = Inl DateParseError"
| "to_datetime ((Some t, r) # xs) =
     (case to_datetime xs of Inl e \<Rightarrow> Inl e | Inr ys \<Rightarrow> Inr ((t, r) # ys))"

definition set_index :: "argsort \<Rightarrow> csv_file \<Rightarrow> error + dataframe" where
  "set_index a f =
     (case f of
        Missing \<Rightarrow> Inl FileNotFoundError
      | Csv cols rs \<Rightarrow>
          if ''Activity Date'' \<notin> set cols then Inl (KeyError ''Activity Date'')
          else and_then (to_datetime rs)
                 (\<lambda>trs. Inr (sort_index a True
                    \<lparr>columns = removeAll ''Activity Date'' cols, rows = trs\<rparr>)))"

text \<open>Lines 28-31.\<close>

definition time_components :: "dataframe \<Rightarrow> error + dataframe" where
  "time_components df =
     and_then (set_column ''Year'' (\<lambda>(t, r). Inr (Num (of_int (ts_year t)))) df) (\<lambda>df.
     and_then (set_column ''Month'' (\<lambda>(t, r). Inr (Str (month_name t))) df) (\<lambda>df.
     and_then (set_column ''Day of Week'' (\<lambda>(t, r). Inr (Str (day_name t))) df) (\<lambda>df.
     set_column ''Hour of Day'' (\<lambda>(t, r). Inr (Num (of_nat (ts_hour t)))) df)))"

text \<open>Lines 37-42.\<close>

definition distance_km :: "dataframe \<Rightarrow> error + dataframe" where
  "distance_km df =
     (if has_column df ''Distance.1'' then
        set_column ''Distance_km'' (\<lambda>(t, r). truediv (r ''Distance.1'') (Num 1000)) df
      else if has_column df ''Distance'' then
        set_column ''Distance_km'' (\<lambda>(t, r). Inr (r ''Distance'')) df
      else set_column ''Distance_km'' (\<lambda>(t, r). Inr (Num 0)) df)"

text \<open>Lines 45-48.\<close>

definition moving_time_hr :: "dataframe \<Rightarrow> error + dataframe" where
  "moving_time_hr df =
     (if has_column df ''Moving Time'' then
        set_column ''Moving_Time_hr'' (\<lambda>(t, r). truediv (r ''Moving Time'') (Num 3600)) df
      else set_column ''Moving_Time_hr'' (\<lambda>(t, r). Inr (Num 0)) df)"

text \<open>Lines 51-56.\<close>

definition elevation_gain_m :: "dataframe \<Rightarrow> error + dataframe" where
  "elevation_gain_m df =
     (if has_column df ''Total Elevation Gain'' then
        set_column ''Elevation_Gain_m'' (\<lambda>(t, r). Inr (r ''Total Elevation Gain'')) df
      else if has_column df ''Elevation Gain'' then
        set_column ''Elevation_Gain_m'' (\<lambda>(t, r). Inr (r ''Elevation Gain'')) df
      else set_column ''Elevation_Gain_m'' (\<lambda>(t, r). Inr (Num 0)) df)"

text \<open>The lambda of line 66.\<close>

definition speed_of_row :: "row \<Rightarrow> error + cell" where
  "speed_of_row r =
     and_then (gt_cell (r ''Moving_Time_hr'') 0)
       (\<lambda>b. if b then truediv (r ''Distance_km'') (r ''Moving_Time_hr'') else Inr (Num 0))"

text \<open>Lines 59-70.\<close>

definition average_speed_kmh :: "dataframe \<Rightarrow> error + dataframe" where
  "average_speed_kmh df =
     (if has_column df ''Average Speed'' then
        set_column ''Average_Speed_kmh'' (\<lambda>(t, r). mul_cell (r ''Average Speed'') (36 / 10)) df
      else if has_column df ''Distance_km'' \<and> has_column df ''Moving_Time_hr'' then
        set_column ''Average_Speed_kmh'' (\<lambda>(t, r). speed_of_row r) df
      else set_column ''Average_Speed_kmh'' (\<lambda>(t, r). Inr (Num 0)) df)"

text \<open>Lines 73-74.\<close>

definition calories :: "dataframe \<Rightarrow> error + dataframe" where
  "calories df =
     (if \<not> has_column df ''Calories'' then
        set_column ''Calories'' (\<lambda>(t, r). Inr (Num 0)) df
      else Inr df)"

text \<open>Lines 28-74: the derived columns, before the two cleaning passes.\<close>

definition derive_columns :: "dataframe \<Rightarrow> error + dataframe" where
  "derive_columns df =
     and_then (time_components df) (\<lambda>df.
     and_then (distance_km df) (\<lambda>df.
     and_then (moving_time_hr df) (\<lambda>df.
     and_then (elevation_gain_m df) (\<lambda>df.
     and_then (average_speed_kmh df) calories))))"

text \<open>Lines 77-79: \<open>fillna(0)\<close> on each key column in turn.\<close>

definition key_cols :: "string list" where
  "key_cols = [''Distance_km'', ''Moving_Time_hr'', ''Elevation_Gain_m'',
     ''Average_Speed_kmh'', ''Calories'']"

definition fill_column :: "string \<Rightarrow> dataframe \<Rightarrow> dataframe" where
  "fill_column c df = df\<lparr>rows := map (\<lambda>(t, r). (t, r(c := fillna (r c)))) (rows df)\<rparr>"

definition fill_key_cols :: "dataframe \<Rightarrow> dataframe" where
  "fill_key_cols df = fold fill_column key_cols df"

text \<open>Line 82: every column of the frame.\<close>

definition replace_infinite :: "dataframe \<Rightarrow> dataframe" where
  "replace_infinite df = df\<lparr>rows := map (\<lambda>(t, r). (t, \<lambda>c. replace_inf (r c))) (rows df)\<rparr>"

definition clean :: "dataframe \<Rightarrow> dataframe" where
  "clean df = replace_infinite (fill_key_cols df)"

text \<open>The table before cleaning, and the table \<open>load_data\<close> returns.\<close>

definition derive :: "argsort \<Rightarrow> csv_file \<Rightarrow> error + dataframe" where
  "derive a f = and_then (set_index a f) derive_columns"

definition load_data :: "argsort \<Rightarrow> csv_file \<Rightarrow> error + dataframe" where
  "load_data a f = and_then (derive a f) (\<lambda>df. Inr (clean df))"

text \<open>\<open>df[c].tolist()\<close>, for stating examples.\<close>

definition column_values :: "string \<Rightarrow> dataframe \<Rightarrow> cell list" where
  "column_values c df = map (\<lambda>x. snd x c) (rows df)"

section \<open>Filters (lines 100-123)\<close>

text \<open>
  The sidebar widgets (lines 89-97 and 106-111) belong to the presentation
  layer; what they return, \<open>selected_year\<close> and \<open>selected_types\<close>, are inputs
  here.
\<close>

datatype year_choice = AllYears | Year int

text \<open>Lines 100-103.  \<open>df['Year'] == selected_year\<close> compares cell by cell.\<close>

definition filter_year :: "year_choice \<Rightarrow> dataframe \<Rightarrow> error + dataframe" where
  "filter_year selected_year df =
     (case selected_year of
        AllYears \<Rightarrow> Inr df
      | Year y \<Rightarrow>
          if \<not> has_column df ''Year'' then Inl (KeyError ''Year'')
          else Inr (df\<lparr>rows := filter (\<lambda>(t, r). r ''Year'' = Num (of_int y)) (rows df)\<rparr>))"

text \<open>\<open>Series.isin(selected_types)\<close> on one cell.\<close>

fun isin :: "cell \<Rightarrow> string list \<Rightarrow> bool" where
  "isin (Str s) xs = (s \<in> set xs)"
| "isin c xs = False"

text \<open>Lines 114-118.\<close>

definition filter_types :: "string list \<Rightarrow> dataframe \<Rightarrow> error + dataframe" where
  "filter_types selected_types df =
     (if ''All Activities'' \<in> set selected_types \<or> selected_types = [] then Inr df
      else if \<not> has_column df ''Activity Type'' then Inl (KeyError ''Activity Type'')
      else Inr (df\<lparr>rows := filter (\<lambda>(t, r). isin (r ''Activity Type'') selected_types) (rows df)\<rparr>))"

definition df_filtered :: "year_choice \<Rightarrow> string list \<Rightarrow> dataframe \<Rightarrow> error + dataframe" where
  "df_filtered selected_year selected_types df =
     and_then (filter_year selected_year df) (filter_types selected_types)"

section \<open>Top-level metrics (lines 130-140)\<close>

text \<open>
  Float addition with the IEEE special values.  A text cell in a numeric
  reduction stops the script (in the reduction itself or in the number
  formatting of lines 144-153); the model reports it as \<open>TypeError\<close>.
\<close>

fun add_cell :: "cell \<Rightarrow> cell \<Rightarrow> error + cell" where
  "add_cell (Str s) b = Inl TypeError"
| "add_cell a (Str s) = Inl TypeError"
| "add_cell NaN b = Inr NaN"
| "add_cell a NaN = Inr NaN"
| "add_cell (Num x) (Num y) = Inr (Num (x + y))"
| "add_cell PInf NInf = Inr NaN"
| "add_cell NInf PInf = Inr NaN"
| "add_cell PInf b = Inr PInf"
| "add_cell a PInf = Inr PInf"
| "add_cell NInf b = Inr NInf"
| "add_cell a NInf = Inr NInf"

text \<open>\<open>Series.sum()\<close>: missing values count as 0, the empty sum is 0.\<close>

fun sum_from :: "cell \<Rightarrow> cell list \<Rightarrow> error + cell" where
  "sum_from acc [] = Inr acc"
| "sum_from acc (x # xs) = and_then (add_cell acc (fillna x)) (\<lambda>acc'. sum_from acc' xs)"

definition series_sum :: "cell list \<Rightarrow> error + cell" where
  "series_sum xs = sum_from (Num 0) xs"

text \<open>\<open>Series.mean()\<close>: over the values that are not missing; NaN when there are none.\<close>

definition series_mean :: "cell list \<Rightarrow> error + cell" where
  "series_mean xs =
     (let ys = filter (\<lambda>c. c \<noteq> NaN) xs in
      if ys = [] then Inr NaN
      else and_then (series_sum ys) (\<lambda>s. truediv s (Num (of_nat (length ys)))))"








text \<open>
  Line 140: the boolean mask \<open>df_filtered['Average_Speed_kmh'] > 0\<close>, the rows it
  selects, and the mean of their speeds.
\<close>

definition positive_speed_rows :: "dataframe \<Rightarrow> error + (timestamp \<times> row) list" where
  "positive_speed_rows f =
     and_then (traverse (\<lambda>x. gt_cell (snd x ''Average_Speed_kmh'') 0) (rows f))
       (\<lambda>mask. Inr (map fst (filter snd (zip (rows f) mask))))"

definition avg_speed :: "dataframe \<Rightarrow> error + cell" where
  "avg_speed f =
     and_then (positive_speed_rows f)
       (\<lambda>rs. series_mean (map (\<lambda>x. snd x ''Average_Speed_kmh'') rs))"



section \<open>Distance per month by activity type (lines 163-164)\<close>









section \<open>Cumulative distance (lines 177-178)\<close>





section \<open>Recent activities (lines 291-297)\<close>

definition recent_cols :: "string list" where
  "recent_cols = [''Activity Name'', ''Activity Type'', ''Distance_km'', ''Moving_Time_hr'',
     ''Average_Speed_kmh'', ''Elevation_Gain_m'']"

definition display_cols :: "dataframe \<Rightarrow> string list" where
  "display_cols f = filter (\<lambda>col. col \<in> set (columns f)) recent_cols"

text \<open>
  \<open>df[cols]\<close> keeps the listed columns: the cells at other labels are no longer
  part of the frame.
\<close>

definition project :: "string list \<Rightarrow> dataframe \<Rightarrow> dataframe" where
  "project cols df = df\<lparr>columns := cols\<rparr>"

definition head :: "nat \<Rightarrow> dataframe \<Rightarrow> dataframe" where
  "head n df = df\<lparr>rows := take n (rows df)\<rparr>"

text \<open>
  \<open>round(1)\<close>: numpy rounds \<open>x\<close> to \<open>rint(x * 10) / 10\<close>, where \<open>rint\<close> rounds to
  the nearest integer and a tie to the even one.  Text, NaN and the infinities
  stay as they are.
\<close>

definition rint :: "real \<Rightarrow> int" where
  "rint x =
     (let n = \<lfloor>x\<rfloor>; d = x - of_int n in
      if d < 1 / 2 then n else if 1 / 2 < d then n + 1 else if even n then n else n + 1)"

fun round1 :: "cell \<Rightarrow> cell" where
  "round1 (Num x) = Num (of_int (rint (x * 10)) / 10)"
| "round1 c = c"

definition round_frame :: "dataframe \<Rightarrow> dataframe" where
  "round_frame df = df\<lparr>rows := map (\<lambda>(t, r). (t, \<lambda>c. round1 (r c))) (rows df)\<rparr>"

definition recent_activities :: "argsort \<Rightarrow> dataframe \<Rightarrow> dataframe" where
  "recent_activities a f =
     round_frame (head 20 (sort_index a False (project (display_cols f) f)))"

section \<open>The script after load_data (lines 100-298)\<close>




section \<open>Example inputs\<close>

text \<open>
  One activity: 5 km, no moving time, a negative elevation value and an
  infinite calorie value; no \<open>Average Speed\<close> column.
\<close>

definition row_one :: row where
  "row_one = (\<lambda>l. NaN)(''Activity Type'' := Str ''Run'', ''Distance'' := Num 5,
     ''Moving Time'' := Num 0, ''Total Elevation Gain'' := Num (- 5), ''Calories'' := PInf)"

definition csv_one :: csv_file where
  "csv_one = Csv [''Activity Date'', ''Activity Type'', ''Distance'', ''Moving Time'',
                  ''Total Elevation Gain'', ''Calories'']
                 [(Some (2023, 1, 5, 10, 0, 0), row_one)]"




text \<open>
  Twenty-one activities in index order, as a filtered table has them; the last
  two start at the same time.
\<close>

definition activity :: "nat \<Rightarrow> real \<Rightarrow> timestamp \<times> row" where
  "activity d km =
     ((2023, 1, d, 8, 0, 0),
      (\<lambda>l. NaN)(''Activity Name'' := Str ''Run'', ''Activity Type'' := Str ''Run'',
         ''Distance_km'' := Num km, ''Moving_Time_hr'' := Num 1,
         ''Average_Speed_kmh'' := Num km, ''Elevation_Gain_m'' := Num 0))"

definition g21 :: dataframe where
  "g21 = \<lparr>columns = [''Activity Name'', ''Activity Type'', ''Distance_km'', ''Moving_Time_hr'',
                     ''Average_Speed_kmh'', ''Elevation_Gain_m''],
          rows = [activity 1 1, activity 2 2, activity 3 3, activity 4 4, activity 5 5,
            activity 6 6, activity 7 7, activity 8 8, activity 9 9, activity 10 10,
            activity 11 11, activity 12 12, activity 13 13, activity 14 14, activity 15 15,
            activity 16 16, activity 17 17, activity 18 18, activity 19 19, activity 20 20,
            activity 20 21]\<rparr>"

section \<open>Vocabulary of the proofs\<close>

text \<open>
  \<open>step S P df df'\<close>: the two frames have the same rows in the same order, a
  row of \<open>df'\<close> differs from its row of \<open>df\<close> at most at the labels \<open>S\<close>, and
  \<open>P\<close> relates the two.
\<close>

definition step ::
  "string set \<Rightarrow> (row \<Rightarrow> row \<Rightarrow> bool) \<Rightarrow> dataframe \<Rightarrow> dataframe \<Rightarrow> bool" where
  "step S P df df' \<longleftrightarrow>
     set (columns df') = set (columns df) \<union> S \<and>
     length (rows df') = length (rows df) \<and>
     (\<forall>i < length (rows df).
        fst (rows df' ! i) = fst (rows df ! i) \<and>
        (\<forall>l. l \<notin> S \<longrightarrow> snd (rows df' ! i) l = snd (rows df ! i) l) \<and>
        P (snd (rows df ! i)) (snd (rows df' ! i)))"

text \<open>The running sums of a list of numbers, from a starting value.\<close>

fun running_sum :: "real \<Rightarrow> real list \<Rightarrow> real list" where
  "running_sum acc [] = []"
| "running_sum acc (d # ds) = (acc + d) # running_sum (acc + d) ds"

text \<open>The positions a descending \<open>sort_index\<close> takes the rows from.\<close>

definition desc_indexer :: "argsort \<Rightarrow> timestamp list \<Rightarrow> nat list" where
  "desc_indexer a ks =
     (if sorted (rev ks) then [0..<length ks]
      else rev (map (\<lambda>p. length ks - 1 - p) (a (rev ks))))"

text \<open>The labels lines 28-74 assign.\<close>

definition derived_labels :: "string set" where
  "derived_labels = {''Year'', ''Month'', ''Day of Week'', ''Hour of Day'', ''Distance_km'',
     ''Moving_Time_hr'', ''Elevation_Gain_m'', ''Average_Speed_kmh'', ''Calories''}"

section \<open>Properties of load_data\<close>

lemma and_then_Inr:
  "and_then m f = Inr y \<longleftrightarrow> (\<exists>x. m = Inr x \<and> f x = Inr y)"
  by (cases m) (simp_all add: and_then_def)


lemma traverse_Inr:
  "traverse f xs = Inr ys \<longleftrightarrow> list_all2 (\<lambda>x y. f x = Inr y) xs ys"
proof (induction xs arbitrary: ys)
  case Nil
  then show ?case by auto
next
  case (Cons x xs)
  show ?case
  proof (cases "f x")
    case (Inl e)
    then show ?thesis by (simp add: list_all2_Cons1)
  next
    case fx: (Inr v)
    show ?thesis
    proof (cases "traverse f xs")
      case (Inl e)
      have "\<not> list_all2 (\<lambda>x y. f x = Inr y) xs zs" for zs
        unfolding Cons.IH[symmetric] Inl by simp
      with fx Inl show ?thesis by (simp add: list_all2_Cons1)
    next
      case (Inr vs)
      have "list_all2 (\<lambda>x y. f x = Inr y) xs zs \<longleftrightarrow> zs = vs" for zs
        unfolding Cons.IH[symmetric] Inr by auto
      with fx Inr show ?thesis by (auto simp add: list_all2_Cons1)
    qed
  qed
qed

lemma traverse_pure: "traverse (\<lambda>x. Inr (g x)) xs = Inr (map g xs)"
  by (induction xs) simp_all

text \<open>What one column assignment does to each row.\<close>

lemma set_column_Inr:
  assumes "set_column c f df = Inr df'"
  shows "columns df' = insert_col (columns df) c"
    and "list_all2 (\<lambda>x y. \<exists>v. f x = Inr v \<and> y = (fst x, (snd x)(c := v))) (rows df) (rows df')"
proof -
  from assms obtain rs where
    rs: "traverse (\<lambda>x. and_then (f x) (\<lambda>v. Inr (fst x, (snd x)(c := v)))) (rows df) = Inr rs"
    and df': "df' = \<lparr>columns = insert_col (columns df) c, rows = rs\<rparr>"
    by (auto simp: set_column_def and_then_Inr)
  from df' show "columns df' = insert_col (columns df) c" by simp
  from rs have "list_all2 (\<lambda>x y. and_then (f x) (\<lambda>v. Inr (fst x, (snd x)(c := v))) = Inr y) (rows df) rs"
    by (simp add: traverse_Inr)
  then have "list_all2 (\<lambda>x y. \<exists>v. f x = Inr v \<and> y = (fst x, (snd x)(c := v))) (rows df) rs"
    by (rule list_all2_mono) (auto simp: and_then_Inr)
  with df' show "list_all2 (\<lambda>x y. \<exists>v. f x = Inr v \<and> y = (fst x, (snd x)(c := v))) (rows df) (rows df')"
    by simp
qed

lemma set_column_step:
  assumes "set_column c f df = Inr df'"
    and "\<And>t r v. f (t, r) = Inr v \<Longrightarrow> P r (r(c := v))"
  shows "step {c} P df df'"
proof -
  note sc = set_column_Inr[OF assms(1)]
  from sc(2) have len: "length (rows df) = length (rows df')"
    by (rule list_all2_lengthD)
  have "fst (rows df' ! i) = fst (rows df ! i) \<and>
        (\<forall>l. l \<notin> {c} \<longrightarrow> snd (rows df' ! i) l = snd (rows df ! i) l) \<and>
        P (snd (rows df ! i)) (snd (rows df' ! i))" if "i < length (rows df)" for i
  proof -
    from list_all2_nthD[OF sc(2) that] obtain v where
      v: "f (rows df ! i) = Inr v" "rows df' ! i = (fst (rows df ! i), (snd (rows df ! i))(c := v))"
      by blast
    from v(1) have "P (snd (rows df ! i)) ((snd (rows df ! i))(c := v))"
      using assms(2)[of "fst (rows df ! i)" "snd (rows df ! i)" v] by simp
    with v(2) show ?thesis by simp
  qed
  with sc(1) len show ?thesis
    by (auto simp: step_def insert_col_def)
qed

lemma step_weaken:
  "step S P df df' \<Longrightarrow> (\<And>r r'. P r r' \<Longrightarrow> Q r r') \<Longrightarrow> step S Q df df'"
  by (simp add: step_def)

lemma step_trans:
  assumes "step S P df df'" and "step T Q df' df''"
  shows "step (S \<union> T) (\<lambda>r r''. \<exists>r'. P r r' \<and> Q r' r'' \<and> (\<forall>l. l \<notin> S \<longrightarrow> r' l = r l)
            \<and> (\<forall>l. l \<notin> T \<longrightarrow> r'' l = r' l)) df df''"
proof -
  from assms have len: "length (rows df') = length (rows df)" "length (rows df'') = length (rows df)"
    and cols: "set (columns df'') = set (columns df) \<union> (S \<union> T)"
    by (auto simp: step_def)
  have "fst (rows df'' ! i) = fst (rows df ! i) \<and>
        (\<forall>l. l \<notin> S \<union> T \<longrightarrow> snd (rows df'' ! i) l = snd (rows df ! i) l) \<and>
        (\<exists>r'. P (snd (rows df ! i)) r' \<and> Q r' (snd (rows df'' ! i)) \<and>
           (\<forall>l. l \<notin> S \<longrightarrow> r' l = snd (rows df ! i) l) \<and>
           (\<forall>l. l \<notin> T \<longrightarrow> snd (rows df'' ! i) l = r' l))"
    if i: "i < length (rows df)" for i
  proof -
    from assms(1) i have 1: "fst (rows df' ! i) = fst (rows df ! i)"
      "\<forall>l. l \<notin> S \<longrightarrow> snd (rows df' ! i) l = snd (rows df ! i) l"
      "P (snd (rows df ! i)) (snd (rows df' ! i))"
      by (simp_all add: step_def)
    from assms(2) i len have 2: "fst (rows df'' ! i) = fst (rows df' ! i)"
      "\<forall>l. l \<notin> T \<longrightarrow> snd (rows df'' ! i) l = snd (rows df' ! i) l"
      "Q (snd (rows df' ! i)) (snd (rows df'' ! i))"
      by (simp_all add: step_def)
    from 1 2 show ?thesis by auto
  qed
  with len cols show ?thesis
    unfolding step_def by blast
qed

lemma step_refl: "(\<And>r. P r r) \<Longrightarrow> c \<in> set (columns df) \<Longrightarrow> step {c} P df df"
  by (auto simp: step_def)

lemma time_components_step:
  assumes "time_components df = Inr df'"
  shows "step {''Year'', ''Month'', ''Day of Week'', ''Hour of Day''} (\<lambda>r r'. True) df df'"
proof -
  from assms obtain d1 d2 d3 where
    1: "set_column ''Year'' (\<lambda>(t, r). Inr (Num (of_int (ts_year t)))) df = Inr d1" and
    2: "set_column ''Month'' (\<lambda>(t, r). Inr (Str (month_name t))) d1 = Inr d2" and
    3: "set_column ''Day of Week'' (\<lambda>(t, r). Inr (Str (day_name t))) d2 = Inr d3" and
    4: "set_column ''Hour of Day'' (\<lambda>(t, r). Inr (Num (of_nat (ts_hour t)))) d3 = Inr df'"
    unfolding time_components_def and_then_Inr by blast
  have s1: "step {''Year''} (\<lambda>r r'. True) df d1" by (rule set_column_step[OF 1]) simp
  have s2: "step {''Month''} (\<lambda>r r'. True) d1 d2" by (rule set_column_step[OF 2]) simp
  have s3: "step {''Day of Week''} (\<lambda>r r'. True) d2 d3" by (rule set_column_step[OF 3]) simp
  have s4: "step {''Hour of Day''} (\<lambda>r r'. True) d3 df'" by (rule set_column_step[OF 4]) simp
  have "step ({''Year''} \<union> {''Month''} \<union> {''Day of Week''} \<union> {''Hour of Day''}) (\<lambda>r r'. True) df df'"
    by (rule step_weaken[OF step_trans[OF step_trans[OF step_trans[OF s1 s2] s3] s4]]) simp
  then show ?thesis by (simp add: insert_commute)
qed

lemma distance_km_step:
  assumes "distance_km df = Inr df'"
  shows "step {''Distance_km''} (\<lambda>r r'. True) df df'"
  using assms unfolding distance_km_def
  by (auto split: if_splits intro: set_column_step)

lemma moving_time_hr_step:
  assumes "moving_time_hr df = Inr df'"
  shows "step {''Moving_Time_hr''}
           (\<lambda>r r'. if has_column df ''Moving Time''
                    then truediv (r ''Moving Time'') (Num 3600) = Inr (r' ''Moving_Time_hr'')
                    else r' ''Moving_Time_hr'' = Num 0) df df'"
  using assms unfolding moving_time_hr_def
  by (auto split: if_splits intro!: set_column_step)

lemma elevation_gain_m_step:
  assumes "elevation_gain_m df = Inr df'"
  shows "step {''Elevation_Gain_m''}
           (\<lambda>r r'. r' ''Elevation_Gain_m'' =
              (if has_column df ''Total Elevation Gain'' then r ''Total Elevation Gain''
               else if has_column df ''Elevation Gain'' then r ''Elevation Gain''
               else Num 0)) df df'"
  using assms unfolding elevation_gain_m_def
  by (auto split: if_splits intro!: set_column_step)

lemma speed_of_row_upd [simp]:
  "speed_of_row (r(''Average_Speed_kmh'' := v)) = speed_of_row r"
  by (simp add: speed_of_row_def cong: if_cong)

lemma average_speed_kmh_step:
  assumes "average_speed_kmh df = Inr df'"
    and "has_column df ''Distance_km''" and "has_column df ''Moving_Time_hr''"
  shows "step {''Average_Speed_kmh''}
           (\<lambda>r r'. if has_column df ''Average Speed''
                    then mul_cell (r ''Average Speed'') (36 / 10) = Inr (r' ''Average_Speed_kmh'')
                    else speed_of_row r' = Inr (r' ''Average_Speed_kmh'')) df df'"
  using assms unfolding average_speed_kmh_def
  by (auto split: if_splits intro!: set_column_step)

lemma calories_step:
  assumes "calories df = Inr df'"
  shows "step {''Calories''}
           (\<lambda>r r'. if has_column df ''Calories'' then r' = r else r' ''Calories'' = Num 0) df df'"
  using assms unfolding calories_def
  by (auto split: if_splits intro!: set_column_step step_refl simp: has_column_def)

lemma stepD:
  assumes "step S P df df'" and "i < length (rows df)"
  shows "fst (rows df' ! i) = fst (rows df ! i)"
    and "\<And>l. l \<notin> S \<Longrightarrow> snd (rows df' ! i) l = snd (rows df ! i) l"
    and "P (snd (rows df ! i)) (snd (rows df' ! i))"
  using assms by (simp_all add: step_def)

lemma step_length: "step S P df df' \<Longrightarrow> length (rows df') = length (rows df)"
  by (simp add: step_def)

lemma step_columns: "step S P df df' \<Longrightarrow> set (columns df') = set (columns df) \<union> S"
  by (simp add: step_def)

lemma step_has_column:
  "step S P df df' \<Longrightarrow> has_column df' c \<longleftrightarrow> has_column df c \<or> c \<in> S"
  by (auto simp: step_def has_column_def)

lemma speed_of_row_cong:
  "r ''Distance_km'' = r' ''Distance_km'' \<Longrightarrow> r ''Moving_Time_hr'' = r' ''Moving_Time_hr''
   \<Longrightarrow> speed_of_row r = speed_of_row r'"
  by (simp add: speed_of_row_def cong: if_cong)

lemma derive_columns_rows:
  assumes "derive_columns d0 = Inr d"
  shows "length (rows d) = length (rows d0)"
    and "set (columns d) = set (columns d0) \<union> derived_labels"
    and "\<And>i. i < length (rows d0) \<Longrightarrow> fst (rows d ! i) = fst (rows d0 ! i)"
    and "\<And>i l. i < length (rows d0) \<Longrightarrow> l \<notin> derived_labels \<Longrightarrow>
           snd (rows d ! i) l = snd (rows d0 ! i) l"
    and "\<And>i. i < length (rows d0) \<Longrightarrow>
           snd (rows d ! i) ''Elevation_Gain_m'' =
             (if has_column d0 ''Total Elevation Gain'' then snd (rows d0 ! i) ''Total Elevation Gain''
              else if has_column d0 ''Elevation Gain'' then snd (rows d0 ! i) ''Elevation Gain''
              else Num 0)"
    and "\<And>i. i < length (rows d0) \<Longrightarrow>
           (if has_column d0 ''Moving Time''
            then truediv (snd (rows d0 ! i) ''Moving Time'') (Num 3600) =
                   Inr (snd (rows d ! i) ''Moving_Time_hr'')
            else snd (rows d ! i) ''Moving_Time_hr'' = Num 0)"
    and "\<And>i. i < length (rows d0) \<Longrightarrow> \<not> has_column d0 ''Average Speed'' \<Longrightarrow>
           speed_of_row (snd (rows d ! i)) = Inr (snd (rows d ! i) ''Average_Speed_kmh'')"
proof -
  from assms obtain d1 d2 d3 d4 d5 where
    c1: "time_components d0 = Inr d1" and c2: "distance_km d1 = Inr d2" and
    c3: "moving_time_hr d2 = Inr d3" and c4: "elevation_gain_m d3 = Inr d4" and
    c5: "average_speed_kmh d4 = Inr d5" and c6: "calories d5 = Inr d"
    unfolding derive_columns_def and_then_Inr by blast
  note s1 = time_components_step[OF c1]
  note s2 = distance_km_step[OF c2]
  note s3 = moving_time_hr_step[OF c3]
  note s4 = elevation_gain_m_step[OF c4]
  have h4: "has_column d4 ''Distance_km''" "has_column d4 ''Moving_Time_hr''"
    by (simp_all add: step_has_column[OF s4] step_has_column[OF s3] step_has_column[OF s2])
  note s5 = average_speed_kmh_step[OF c5 h4]
  note s6 = calories_step[OF c6]
  have len: "length (rows d1) = length (rows d0)" "length (rows d2) = length (rows d0)"
    "length (rows d3) = length (rows d0)" "length (rows d4) = length (rows d0)"
    "length (rows d5) = length (rows d0)" "length (rows d) = length (rows d0)"
    by (simp_all add: step_length[OF s1] step_length[OF s2] step_length[OF s3]
        step_length[OF s4] step_length[OF s5] step_length[OF s6])
  show "length (rows d) = length (rows d0)" by (rule len)
  show "set (columns d) = set (columns d0) \<union> derived_labels"
    unfolding step_columns[OF s1] step_columns[OF s2] step_columns[OF s3]
      step_columns[OF s4] step_columns[OF s5] step_columns[OF s6] derived_labels_def
    by auto
  have hc: "has_column d2 ''Moving Time'' \<longleftrightarrow> has_column d0 ''Moving Time''"
    "has_column d3 ''Total Elevation Gain'' \<longleftrightarrow> has_column d0 ''Total Elevation Gain''"
    "has_column d3 ''Elevation Gain'' \<longleftrightarrow> has_column d0 ''Elevation Gain''"
    "has_column d4 ''Average Speed'' \<longleftrightarrow> has_column d0 ''Average Speed''"
    by (simp_all add: step_has_column[OF s4] step_has_column[OF s3] step_has_column[OF s2]
        step_has_column[OF s1])
  fix i assume i: "i < length (rows d0)"
  define r0 r1 r2 r3 r4 r5 r where rdefs: "r0 = snd (rows d0 ! i)" "r1 = snd (rows d1 ! i)"
    "r2 = snd (rows d2 ! i)" "r3 = snd (rows d3 ! i)" "r4 = snd (rows d4 ! i)"
    "r5 = snd (rows d5 ! i)" "r = snd (rows d ! i)"
  from i len have ii: "i < length (rows d1)" "i < length (rows d2)" "i < length (rows d3)"
    "i < length (rows d4)" "i < length (rows d5)" by simp_all
  note f1 = stepD[OF s1 i, folded rdefs]
  note f2 = stepD[OF s2 ii(1), folded rdefs]
  note f3 = stepD[OF s3 ii(2), folded rdefs]
  note f4 = stepD[OF s4 ii(3), folded rdefs]
  note f5 = stepD[OF s5 ii(4), folded rdefs]
  note f6 = stepD[OF s6 ii(5), folded rdefs]
  show "fst (rows d ! i) = fst (rows d0 ! i)"
    using f1(1) f2(1) f3(1) f4(1) f5(1) f6(1) by simp
  show "snd (rows d ! i) l = snd (rows d0 ! i) l" if "l \<notin> derived_labels" for l
    using that f1(2)[of l] f2(2)[of l] f3(2)[of l] f4(2)[of l] f5(2)[of l] f6(2)[of l]
    unfolding derived_labels_def rdefs[symmetric] by simp
  have e: "r ''Elevation_Gain_m'' = r4 ''Elevation_Gain_m''"
    using f5(2)[of "''Elevation_Gain_m''"] f6(2)[of "''Elevation_Gain_m''"] by simp
  have src: "r3 l = r0 l" if "l \<notin> derived_labels" for l
    using that f1(2)[of l] f2(2)[of l] f3(2)[of l] unfolding derived_labels_def by simp
  show "snd (rows d ! i) ''Elevation_Gain_m'' =
             (if has_column d0 ''Total Elevation Gain'' then snd (rows d0 ! i) ''Total Elevation Gain''
              else if has_column d0 ''Elevation Gain'' then snd (rows d0 ! i) ''Elevation Gain''
              else Num 0)"
    using e f4(3) src[of "''Total Elevation Gain''"] src[of "''Elevation Gain''"]
    unfolding rdefs[symmetric] hc by (simp add: derived_labels_def)
  have t: "r ''Moving_Time_hr'' = r3 ''Moving_Time_hr''"
    using f4(2)[of "''Moving_Time_hr''"] f5(2)[of "''Moving_Time_hr''"] f6(2)[of "''Moving_Time_hr''"]
    by simp
  have mt: "r2 ''Moving Time'' = r0 ''Moving Time''"
    using f1(2)[of "''Moving Time''"] f2(2)[of "''Moving Time''"] by simp
  show "(if has_column d0 ''Moving Time''
            then truediv (snd (rows d0 ! i) ''Moving Time'') (Num 3600) =
                   Inr (snd (rows d ! i) ''Moving_Time_hr'')
            else snd (rows d ! i) ''Moving_Time_hr'' = Num 0)"
    using f3(3) t mt unfolding rdefs[symmetric] hc by (simp split: if_splits)
  show "speed_of_row (snd (rows d ! i)) = Inr (snd (rows d ! i) ''Average_Speed_kmh'')"
    if "\<not> has_column d0 ''Average Speed''"
  proof -
    from that f5(3) hc have "speed_of_row r5 = Inr (r5 ''Average_Speed_kmh'')" by simp
    moreover have "speed_of_row r = speed_of_row r5"
      by (rule speed_of_row_cong) (simp_all add: f6(2))
    moreover have "r ''Average_Speed_kmh'' = r5 ''Average_Speed_kmh''"
      by (simp add: f6(2))
    ultimately show ?thesis unfolding rdefs by simp
  qed
qed

lemmas load_data_defs = load_data_def derive_def set_index_def sort_index_def
  derive_columns_def time_components_def distance_km_def moving_time_hr_def elevation_gain_m_def
  average_speed_kmh_def calories_def clean_def fill_key_cols_def fill_column_def
  replace_infinite_def key_cols_def and_then_def set_column_def has_column_def insert_col_def
  speed_of_row_def

lemma rows_fill_key_cols:
  "rows (fill_key_cols df) =
     map (\<lambda>(t, r). (t, \<lambda>c. if c \<in> set key_cols then fillna (r c) else r c)) (rows df)"
  by (auto simp: fill_key_cols_def key_cols_def fill_column_def fun_eq_iff)

lemma rows_clean:
  "rows (clean df) =
     map (\<lambda>(t, r). (t, \<lambda>c. replace_inf (if c \<in> set key_cols then fillna (r c) else r c))) (rows df)"
  by (auto simp: clean_def replace_infinite_def rows_fill_key_cols)

lemma columns_clean: "columns (clean df) = columns df"
  by (simp add: clean_def replace_infinite_def fill_key_cols_def key_cols_def fill_column_def)

lemma clean_nth:
  assumes "i < length (rows df)"
  shows "fst (rows (clean df) ! i) = fst (rows df ! i)"
    and "snd (rows (clean df) ! i) c =
           replace_inf (if c \<in> set key_cols then fillna (snd (rows df ! i) c) else snd (rows df ! i) c)"
  using assms by (simp_all add: rows_clean split_beta)

lemma length_clean: "length (rows (clean df)) = length (rows df)"
  by (simp add: rows_clean)

lemma replace_inf_fillna_cases:
  "replace_inf (fillna c) = (if c \<in> {NaN, PInf, NInf} then Num 0 else c)"
  by (cases c) simp_all

lemma replace_inf_not_inf: "replace_inf c \<noteq> PInf" "replace_inf c \<noteq> NInf"
  by (cases c; simp)+

lemma load_data_Inr:
  "load_data a f = Inr df \<longleftrightarrow> (\<exists>d. derive a f = Inr d \<and> df = clean d)"
  by (auto simp: load_data_def and_then_Inr)

lemma columns_sort_index [simp]: "columns (sort_index a b df) = columns df"
  by (simp add: sort_index_def Let_def)

lemma set_index_Inr:
  assumes "set_index a (Csv cols rs) = Inr d0"
  shows "has_column d0 c \<longleftrightarrow> c \<in> set cols \<and> c \<noteq> ''Activity Date''"
  using assms by (auto simp: set_index_def and_then_Inr has_column_def split: if_splits)

lemma load_data_stages:
  assumes "load_data a f = Inr df"
  obtains d0 d where "set_index a f = Inr d0" "derive_columns d0 = Inr d" "df = clean d"
  using assms by (auto simp: load_data_def derive_def and_then_Inr)











lemma set_column_pure:
  "set_column c (\<lambda>x. Inr (g x)) df =
     Inr \<lparr>columns = insert_col (columns df) c,
          rows = map (\<lambda>x. (fst x, (snd x)(c := g x))) (rows df)\<rparr>"
  by (simp add: set_column_def and_then_def traverse_pure)











section \<open>The claims about load_data\<close>

text \<open>
  C1.  In the table \<open>load_data\<close> returns, no cell of the five key columns is
  missing (NaN) or infinite: a cell that was NaN or infinite after the columns
  were derived is 0, and every other cell is as derived.
\<close>

theorem key_columns_never_missing:
  assumes "load_data a f = Inr df"
  shows "\<exists>d. derive a f = Inr d \<and> length (rows df) = length (rows d) \<and>
           (\<forall>i < length (rows df). \<forall>c \<in> set key_cols.
              snd (rows df ! i) c \<notin> {NaN, PInf, NInf} \<and>
              snd (rows df ! i) c =
                (if snd (rows d ! i) c \<in> {NaN, PInf, NInf} then Num 0 else snd (rows d ! i) c))"
proof -
  from assms obtain d where d: "derive a f = Inr d" "df = clean d"
    by (auto simp: load_data_Inr)
  have "snd (rows df ! i) c \<notin> {NaN, PInf, NInf} \<and>
        snd (rows df ! i) c =
          (if snd (rows d ! i) c \<in> {NaN, PInf, NInf} then Num 0 else snd (rows d ! i) c)"
    if "i < length (rows df)" "c \<in> set key_cols" for i c
  proof -
    from that d have i: "i < length (rows d)" by (simp add: length_clean)
    have "snd (rows df ! i) c = replace_inf (fillna (snd (rows d ! i) c))"
      using that(2) by (simp add: d(2) clean_nth(2)[OF i])
    then show ?thesis
      by (cases "snd (rows d ! i) c") simp_all
  qed
  with d show ?thesis by (auto simp: length_clean)
qed

theorem key_columns_never_missing_witness:
  "\<exists>df. load_data stable_argsort csv_one = Inr df \<and>
     column_values ''Calories'' df = [Num 0] \<and>
     column_values ''Average_Speed_kmh'' df = [Num 0] \<and>
     (\<exists>d. derive stable_argsort csv_one = Inr d \<and> length (rows df) = length (rows d) \<and>
           (\<forall>i < length (rows df). \<forall>c \<in> set key_cols.
              snd (rows df ! i) c \<notin> {NaN, PInf, NInf} \<and>
              snd (rows df ! i) c =
                (if snd (rows d ! i) c \<in> {NaN, PInf, NInf} then Num 0 else snd (rows d ! i) c)))"
proof -
  obtain df where df: "load_data stable_argsort csv_one = Inr df"
    by (simp add: load_data_defs csv_one_def row_one_def)
  have "column_values ''Calories'' df = [Num 0] \<and> column_values ''Average_Speed_kmh'' df = [Num 0]"
    using df by (auto simp: load_data_defs csv_one_def row_one_def column_values_def)
  with df key_columns_never_missing[OF df] show ?thesis by blast
qed

text \<open>
  C9.  The replacement of infinite values covers every column, not only the key
  columns: no cell of the returned table is infinite, and a cell that was
  infinite before the cleaning passes is 0.
\<close>

theorem infinities_replaced_in_every_column:
  assumes "load_data a f = Inr df"
  shows "\<exists>d. derive a f = Inr d \<and> length (rows df) = length (rows d) \<and> columns df = columns d \<and>
           (\<forall>i < length (rows df). \<forall>c.
              snd (rows df ! i) c \<noteq> PInf \<and> snd (rows df ! i) c \<noteq> NInf \<and>
              (snd (rows d ! i) c \<in> {PInf, NInf} \<longrightarrow> snd (rows df ! i) c = Num 0))"
proof -
  from assms obtain d where d: "derive a f = Inr d" "df = clean d"
    by (auto simp: load_data_Inr)
  have "snd (rows df ! i) c \<noteq> PInf \<and> snd (rows df ! i) c \<noteq> NInf \<and>
        (snd (rows d ! i) c \<in> {PInf, NInf} \<longrightarrow> snd (rows df ! i) c = Num 0)"
    if "i < length (rows df)" for i c
  proof -
    from that d have i: "i < length (rows d)" by (simp add: length_clean)
    show ?thesis
      unfolding d(2) clean_nth(2)[OF i]
      by (cases "snd (rows d ! i) c") (auto simp: replace_inf_not_inf)
  qed
  with d show ?thesis by (auto simp: length_clean columns_clean)
qed


theorem infinities_replaced_in_every_column_witness:
  "\<exists>df. load_data stable_argsort csv_one = Inr df \<and>
     (\<exists>d. derive stable_argsort csv_one = Inr d \<and> length (rows df) = length (rows d) \<and>
           columns df = columns d \<and>
           (\<forall>i < length (rows df). \<forall>c.
              snd (rows df ! i) c \<noteq> PInf \<and> snd (rows df ! i) c \<noteq> NInf \<and>
              (snd (rows d ! i) c \<in> {PInf, NInf} \<longrightarrow> snd (rows df ! i) c = Num 0)))"
proof -
  obtain df where df: "load_data stable_argsort csv_one = Inr df"
    by (simp add: load_data_defs csv_one_def row_one_def)
  with infinities_replaced_in_every_column[OF df] show ?thesis by blast
qed



text \<open>
  C7, as amended.  No absolute value is taken: \<open>Elevation_Gain_m\<close> is the source
  value itself (\<open>Total Elevation Gain\<close>, else \<open>Elevation Gain\<close>, else 0) with NaN
  and the infinities replaced by 0, so a negative source value stays negative.
\<close>

theorem elevation_gain_is_source_value:
  assumes "load_data a (Csv cols rs) = Inr df"
  shows "\<exists>d0. set_index a (Csv cols rs) = Inr d0 \<and> length (rows df) = length (rows d0) \<and>
           (\<forall>i < length (rows df).
              snd (rows df ! i) ''Elevation_Gain_m'' =
                replace_inf (fillna
                  (if ''Total Elevation Gain'' \<in> set cols then snd (rows d0 ! i) ''Total Elevation Gain''
                   else if ''Elevation Gain'' \<in> set cols then snd (rows d0 ! i) ''Elevation Gain''
                   else Num 0)))"
proof -
  from assms obtain d0 d where
    d0: "set_index a (Csv cols rs) = Inr d0" and d: "derive_columns d0 = Inr d" and
    df: "df = clean d"
    by (rule load_data_stages)
  note dr = derive_columns_rows[OF d]
  have len: "length (rows df) = length (rows d0)"
    by (simp add: df length_clean dr(1))
  have "snd (rows df ! i) ''Elevation_Gain_m'' =
                replace_inf (fillna
                  (if ''Total Elevation Gain'' \<in> set cols then snd (rows d0 ! i) ''Total Elevation Gain''
                   else if ''Elevation Gain'' \<in> set cols then snd (rows d0 ! i) ''Elevation Gain''
                   else Num 0))"
    if "i < length (rows df)" for i
  proof -
    from that len have i0: "i < length (rows d0)" by simp
    with dr(1) have i: "i < length (rows d)" by simp
    show ?thesis
      unfolding df clean_nth(2)[OF i] dr(5)[OF i0] set_index_Inr[OF d0]
      by (simp add: key_cols_def)
  qed
  with d0 len show ?thesis by blast
qed

theorem elevation_gain_is_source_value_witness:
  "\<exists>df. load_data stable_argsort csv_one = Inr df \<and>
     (\<exists>d0. set_index stable_argsort csv_one = Inr d0 \<and> length (rows df) = length (rows d0) \<and>
           (\<forall>i < length (rows df).
              snd (rows df ! i) ''Elevation_Gain_m'' =
                replace_inf (fillna (snd (rows d0 ! i) ''Total Elevation Gain''))))"
proof -
  obtain df where df: "load_data stable_argsort csv_one = Inr df"
    by (simp add: load_data_defs csv_one_def row_one_def)
  from elevation_gain_is_source_value[OF df[unfolded csv_one_def]] df show ?thesis
    by (simp add: csv_one_def)
qed

text \<open>
  C7 as stated fails: the source value -5 is -5 in the returned table, not 5.
\<close>

theorem elevation_gain_magnitude_counterexample:
  "map_sum id (column_values ''Elevation_Gain_m'') (load_data stable_argsort csv_one) = Inr [Num (- 5)] \<and>
   row_one ''Total Elevation Gain'' = Num (- 5) \<and> Num (- 5) \<noteq> Num \<bar>- 5\<bar>"
  by (simp add: load_data_defs csv_one_def row_one_def column_values_def)

section \<open>The claims about the filters and the metrics\<close>






text \<open>
  C2.  The average speed of line 140 on a table with no row of positive speed:
  the mean of an empty selection is NaN, not 0.
\<close>

theorem avg_speed_of_no_positive_row:
  "and_then (load_data stable_argsort csv_one)
     (\<lambda>df. and_then (df_filtered AllYears [''All Activities''] df) avg_speed) = Inr NaN \<and>
   map_sum id (column_values ''Average_Speed_kmh'') (load_data stable_argsort csv_one) = Inr [Num 0]"
  by (simp add: load_data_defs csv_one_def row_one_def df_filtered_def filter_year_def
      filter_types_def avg_speed_def positive_speed_rows_def series_mean_def column_values_def)

section \<open>The claims about the cumulative distance\<close>

lemma sorts_stable_argsort: "sorts stable_argsort"
  unfolding sorts_def
proof (intro allI conjI)
  fix ks :: "timestamp list"
  define ps where "ps = sort_key fst (zip ks [0..<length ks])"
  have set_ps: "set ps = set (zip ks [0..<length ks])"
    by (simp add: ps_def)
  show "mset (stable_argsort ks) = mset [0..<length ks]"
  proof -
    have "mset ps = mset (zip ks [0..<length ks])"
      by (simp add: ps_def)
    then have "mset (map snd ps) = mset (map snd (zip ks [0..<length ks]))"
      by (simp only: mset_map)
    moreover have "map snd (zip ks [0..<length ks]) = [0..<length ks]"
      by (simp add: map_snd_zip)
    ultimately show ?thesis
      by (simp only: stable_argsort_def ps_def)
  qed
  have "ks ! snd p = fst p" if "p \<in> set ps" for p
    using that unfolding set_ps by (auto simp: set_zip)
  then have eq: "map (\<lambda>i. ks ! i) (map snd ps) = map fst ps"
    by simp
  have "map (\<lambda>i. ks ! i) (stable_argsort ks) = map fst ps"
    unfolding stable_argsort_def ps_def[symmetric] by (rule eq)
  moreover have "sorted (map fst ps)"
    by (simp add: ps_def)
  ultimately show "sorted (map (\<lambda>i. ks ! i) (stable_argsort ks))"
    by (simp only:)
qed

lemma sorts_set: "sorts a \<Longrightarrow> set (a ks) = {0..<length ks}"
  by (metis sorts_def set_mset_mset set_upt)

lemma sort_index_sorted:
  assumes "sorts a"
  shows "sorted (map fst (rows (sort_index a True df)))"
proof (cases "sorted (map fst (rows df))")
  case True
  then show ?thesis by (simp add: sort_index_def)
next
  case False
  define ks where "ks = map fst (rows df)"
  have in_range: "filter (\<lambda>i. i < length (rows df)) (a ks) = a ks"
    using sorts_set[OF assms, of ks] by (auto simp: ks_def filter_id_conv)
  have "map fst (take_rows (a ks) (rows df)) = map (\<lambda>i. ks ! i) (a ks)"
    unfolding take_rows_def in_range
    using sorts_set[OF assms, of ks] by (auto simp: ks_def)
  moreover from assms have "sorted (map (\<lambda>i. ks ! i) (a ks))"
    by (simp add: sorts_def)
  ultimately show ?thesis
    using False by (simp add: sort_index_def ks_def)
qed

lemma set_index_sorted:
  assumes "sorts a" and "set_index a f = Inr d0"
  shows "sorted (map fst (rows d0))"
  using assms(2) sort_index_sorted[OF assms(1)]
  by (cases f) (auto simp: set_index_def and_then_Inr split: if_splits)





lemma sum_from_Num:
  "sum_from (Num acc) (map Num ds) = Inr (Num (acc + sum_list ds))"
  by (induction ds arbitrary: acc) (simp_all add: and_then_def add.assoc)


lemma length_running_sum [simp]: "length (running_sum acc ds) = length ds"
  by (induction ds arbitrary: acc) simp_all













section \<open>The claim about the monthly table\<close>







section \<open>The claim about the recent activities\<close>

lemma sorts_rev_ties_argsort: "sorts rev_ties_argsort"
  unfolding sorts_def
proof (intro allI conjI)
  fix ks :: "timestamp list"
  define ps where "ps = sort_key fst (rev (zip ks [0..<length ks]))"
  have set_ps: "set ps = set (zip ks [0..<length ks])"
    by (simp add: ps_def)
  show "mset (rev_ties_argsort ks) = mset [0..<length ks]"
  proof -
    have "mset ps = mset (zip ks [0..<length ks])"
      by (simp add: ps_def)
    then have "mset (map snd ps) = mset (map snd (zip ks [0..<length ks]))"
      by (simp only: mset_map)
    moreover have "map snd (zip ks [0..<length ks]) = [0..<length ks]"
      by (simp add: map_snd_zip)
    ultimately show ?thesis
      by (simp only: rev_ties_argsort_def ps_def)
  qed
  have "ks ! snd p = fst p" if "p \<in> set ps" for p
    using that unfolding set_ps by (auto simp: set_zip)
  then have eq: "map (\<lambda>i. ks ! i) (map snd ps) = map fst ps"
    by simp
  have "map (\<lambda>i. ks ! i) (rev_ties_argsort ks) = map fst ps"
    unfolding rev_ties_argsort_def ps_def[symmetric] by (rule eq)
  moreover have "sorted (map fst ps)"
    by (simp add: ps_def)
  ultimately show "sorted (map (\<lambda>i. ks ! i) (rev_ties_argsort ks))"
    by (simp only:)
qed

lemma mset_map_nth:
  assumes "mset idx = mset [0..<length xs]"
  shows "mset (map (\<lambda>i. xs ! i) idx) = mset xs"
proof -
  have "mset (map (\<lambda>i. xs ! i) idx) = image_mset (\<lambda>i. xs ! i) (mset idx)" by simp
  also have "\<dots> = image_mset (\<lambda>i. xs ! i) (mset [0..<length xs])" by (simp only: assms)
  also have "\<dots> = mset (map (\<lambda>i. xs ! i) [0..<length xs])" by (simp only: mset_map)
  also have "\<dots> = mset xs" by (simp only: map_nth)
  finally show ?thesis .
qed

lemma mset_mirror:
  assumes "mset P = mset [0..<n]"
  shows "mset (map (\<lambda>p. n - 1 - p) P) = mset [0..<n]"
proof -
  have "map (\<lambda>p. n - 1 - p) [0..<n] = rev [0..<n]"
    by (rule nth_equalityI) (simp_all add: rev_nth)
  then have "mset (map (\<lambda>p. n - 1 - p) [0..<n]) = mset [0..<n]"
    by (simp only: mset_rev)
  moreover have "mset (map (\<lambda>p. n - 1 - p) P) = mset (map (\<lambda>p. n - 1 - p) [0..<n])"
    using assms by (metis mset_map)
  ultimately show ?thesis by (simp only:)
qed

lemma desc_indexer_perm:
  assumes "sorts a"
  shows "mset (desc_indexer a ks) = mset [0..<length ks]"
proof (cases "sorted (rev ks)")
  case True
  then show ?thesis by (simp add: desc_indexer_def)
next
  case False
  from assms have "mset (a (rev ks)) = mset [0..<length ks]"
    by (metis sorts_def length_rev)
  from mset_mirror[OF this]
  have "mset (rev (map (\<lambda>p. length ks - 1 - p) (a (rev ks)))) = mset [0..<length ks]"
    by (simp only: mset_rev)
  moreover from False
  have "desc_indexer a ks = rev (map (\<lambda>p. length ks - 1 - p) (a (rev ks)))"
    by (simp only: desc_indexer_def if_False)
  ultimately show ?thesis by (simp only:)
qed

lemma desc_indexer_keys:
  assumes "sorts a"
  shows "map (\<lambda>i. ks ! i) (desc_indexer a ks) = rev (sort ks)"
proof (cases "sorted (rev ks)")
  case True
  then have "sort ks = rev ks"
    by (intro properties_for_sort) simp_all
  with True show ?thesis by (simp add: desc_indexer_def map_nth)
next
  case False
  define P where "P = a (rev ks)"
  from assms have mP: "mset P = mset [0..<length (rev ks)]"
    and sP: "sorted (map (\<lambda>i. rev ks ! i) P)"
    unfolding P_def sorts_def by blast+
  have inr: "p < length ks" if "p \<in> set P" for p
    using that sorts_set[OF assms, of "rev ks"] by (simp add: P_def)
  have "mset (map (\<lambda>i. rev ks ! i) P) = mset (rev ks)"
    by (rule mset_map_nth[OF mP])
  then have "sort ks = map (\<lambda>i. rev ks ! i) P"
    using sP by (intro properties_for_sort) simp_all
  moreover have "map (\<lambda>i. rev ks ! i) P = map (\<lambda>p. ks ! (length ks - 1 - p)) P"
    using inr by (auto simp: rev_nth)
  ultimately have "rev (sort ks) = rev (map (\<lambda>p. ks ! (length ks - 1 - p)) P)"
    by simp
  with False show ?thesis
    by (simp add: desc_indexer_def P_def rev_map o_def)
qed

lemma rows_sort_index_desc:
  assumes "sorts a"
  shows "rows (sort_index a False g) =
           map (\<lambda>i. rows g ! i) (desc_indexer a (map fst (rows g)))"
proof (cases "sorted (rev (map fst (rows g)))")
  case True
  then show ?thesis by (simp add: sort_index_def desc_indexer_def map_nth)
next
  case False
  define idx where "idx = desc_indexer a (map fst (rows g))"
  have "mset idx = mset [0..<length (map fst (rows g))]"
    unfolding idx_def by (rule desc_indexer_perm[OF assms])
  then have "set idx = {0..<length (rows g)}"
    by (metis length_map set_mset_mset set_upt)
  then have filt: "filter (\<lambda>i. i < length (rows g)) idx = idx"
    by (auto simp: filter_id_conv)
  have "rows (sort_index a False g) = take_rows idx (rows g)"
    using False by (simp add: sort_index_def desc_indexer_def idx_def Let_def)
  also have "\<dots> = map (\<lambda>i. rows g ! i) idx"
    by (simp only: take_rows_def filt)
  finally show ?thesis by (simp only: idx_def)
qed

lemma rint_close: "\<bar>of_int (rint y) - y\<bar> \<le> 1 / 2"
proof -
  have "of_int \<lfloor>y\<rfloor> \<le> y" "y < of_int \<lfloor>y\<rfloor> + 1"
    by linarith+
  then show ?thesis
    by (auto simp: rint_def Let_def)
qed

lemma round1_close:
  "\<exists>n :: int. round1 (Num x) = Num (of_int n / 10) \<and> \<bar>of_int n / 10 - x\<bar> \<le> 1 / 20"
proof -
  have "\<bar>of_int (rint (x * 10)) - x * 10\<bar> \<le> 1 / 2"
    by (rule rint_close)
  then have "\<bar>of_int (rint (x * 10)) / 10 - x\<bar> \<le> 1 / 20"
    by (simp add: abs_le_iff field_simps)
  then show ?thesis by (intro exI[of _ "rint (x * 10)"]) simp
qed

text \<open>
  C6, as amended.  For a table of more than 20 rows the recent-activity view is
  20 distinct rows of it, their cells rounded; their timestamps are the 20
  latest in descending order; its columns are those of \<open>recent_cols\<close> the table
  has (all six when it has them); a rounded number is a multiple of 0.1 at most
  0.05 away, and text, NaN and the infinities are unchanged.  Nothing is said
  about the order of rows with equal timestamps.
\<close>

theorem recent_activities_view:
  assumes "sorts a" and "20 < length (rows g)"
  shows "\<exists>idx. length idx = 20 \<and> distinct idx \<and> (\<forall>i \<in> set idx. i < length (rows g)) \<and>
           rows (recent_activities a g) =
             map (\<lambda>i. (fst (rows g ! i), \<lambda>c. round1 (snd (rows g ! i) c))) idx \<and>
           map fst (rows (recent_activities a g)) = take 20 (rev (sort (map fst (rows g)))) \<and>
           columns (recent_activities a g) = filter (\<lambda>c. c \<in> set (columns g)) recent_cols \<and>
           (set recent_cols \<subseteq> set (columns g) \<longrightarrow> columns (recent_activities a g) = recent_cols) \<and>
           (\<forall>x. \<exists>n :: int. round1 (Num x) = Num (of_int n / 10) \<and> \<bar>of_int n / 10 - x\<bar> \<le> 1 / 20) \<and>
           round1 NaN = NaN \<and> round1 PInf = PInf \<and> round1 NInf = NInf \<and>
           (\<forall>s. round1 (Str s) = Str s)"
proof -
  define ks where "ks = map fst (rows g)"
  define full where "full = desc_indexer a ks"
  define idx where "idx = take 20 full"
  have perm: "mset full = mset [0..<length ks]"
    unfolding full_def by (rule desc_indexer_perm[OF assms(1)])
  then have len_full: "length full = length (rows g)"
    by (metis ks_def length_map length_upt mset_eq_length diff_zero)
  from perm have set_full: "set full = {0..<length (rows g)}"
    by (metis ks_def length_map set_mset_mset set_upt)
  from perm have dist_full: "distinct full"
    by (metis distinct_upt mset_eq_imp_distinct_iff)
  have 1: "length idx = 20"
    using assms(2) len_full by (simp add: idx_def)
  have 2: "distinct idx"
    unfolding idx_def by (rule distinct_take[OF dist_full])
  have 3: "\<forall>i \<in> set idx. i < length (rows g)"
    using set_full set_take_subset[of 20 full] by (auto simp: idx_def)
  have rows_sorted: "rows (sort_index a False (project (display_cols g) g)) =
      map (\<lambda>i. rows g ! i) full"
    using rows_sort_index_desc[OF assms(1), of "project (display_cols g) g"]
    by (simp add: project_def full_def ks_def)
  have 4: "rows (recent_activities a g) =
             map (\<lambda>i. (fst (rows g ! i), \<lambda>c. round1 (snd (rows g ! i) c))) idx"
    by (simp add: recent_activities_def round_frame_def head_def rows_sorted idx_def
        take_map split_beta o_def)
  have "map fst (rows (recent_activities a g)) = take 20 (map (\<lambda>i. ks ! i) full)"
    unfolding 4 idx_def using set_full
    by (auto simp: take_map ks_def o_def intro!: map_cong[OF refl] dest!: in_set_takeD)
  then have 5: "map fst (rows (recent_activities a g)) = take 20 (rev (sort (map fst (rows g))))"
    by (simp add: full_def desc_indexer_keys[OF assms(1)] ks_def)
  have 6: "columns (recent_activities a g) = filter (\<lambda>c. c \<in> set (columns g)) recent_cols"
    by (simp add: recent_activities_def round_frame_def head_def project_def display_cols_def)
  have 7: "columns (recent_activities a g) = recent_cols" if "set recent_cols \<subseteq> set (columns g)"
    unfolding 6 using that by (auto simp: filter_id_conv)
  from 1 2 3 4 5 6 7 round1_close show ?thesis
    by (intro exI[of _ idx]) simp
qed

theorem recent_activities_view_witness:
  "sorts stable_argsort \<and> 20 < length (rows g21) \<and>
   length (rows (recent_activities stable_argsort g21)) = 20 \<and>
   map fst (rows (recent_activities stable_argsort g21)) = take 20 (rev (sort (map fst (rows g21)))) \<and>
   columns (recent_activities stable_argsort g21) = recent_cols"
proof -
  have l: "20 < length (rows g21)" by (simp add: g21_def)
  have c: "set recent_cols \<subseteq> set (columns g21)" by (simp add: g21_def recent_cols_def)
  from recent_activities_view[OF sorts_stable_argsort l] obtain idx where
    "length idx = 20"
    "rows (recent_activities stable_argsort g21) =
       map (\<lambda>i. (fst (rows g21 ! i), \<lambda>c. round1 (snd (rows g21 ! i) c))) idx"
    "map fst (rows (recent_activities stable_argsort g21)) = take 20 (rev (sort (map fst (rows g21))))"
    "set recent_cols \<subseteq> set (columns g21) \<longrightarrow> columns (recent_activities stable_argsort g21) = recent_cols"
    by blast
  with l c sorts_stable_argsort show ?thesis by simp
qed

lemma rows_g21: "rows g21 = [activity 1 1, activity 2 2, activity 3 3, activity 4 4, activity 5 5,
  activity 6 6, activity 7 7, activity 8 8, activity 9 9, activity 10 10, activity 11 11,
  activity 12 12, activity 13 13, activity 14 14, activity 15 15, activity 16 16, activity 17 17,
  activity 18 18, activity 19 19, activity 20 20, activity 20 21]"
  by (simp add: g21_def)

lemma fst_activity [simp]: "fst (activity d km) = (2023, 1, d, 8, 0, 0)"
  by (simp add: activity_def)

lemma keys_g21: "map fst (rows g21) = map (\<lambda>d. (2023, 1, d, 8, 0, 0))
   [1, 2, 3, 4, 5, 6, 7, 8, 9, 10, 11, 12, 13, 14, 15, 16, 17, 18, 19, 20, 20]"
  by (simp add: rows_g21)

lemma indexer_g21:
  "desc_indexer rev_ties_argsort (map fst (rows g21)) =
     [20, 19, 18, 17, 16, 15, 14, 13, 12, 11, 10, 9, 8, 7, 6, 5, 4, 3, 2, 1, 0]"
  unfolding keys_g21
  by (simp add: desc_indexer_def rev_ties_argsort_def upt_rec_numeral)

text \<open>
  C6 as stated fails on the order of ties: with an admissible sorting routine the
  two activities of the same time, which stand with distances 20 and 21 in this
  order in the table, appear as 21, 20 in the view.
\<close>

theorem recent_activities_ties_counterexample:
  "sorts rev_ties_argsort \<and> 20 < length (rows g21) \<and> sorted (map fst (rows g21)) \<and>
   take 2 (map fst (rows (recent_activities rev_ties_argsort g21))) =
     [(2023, 1, 20, 8, 0, 0), (2023, 1, 20, 8, 0, 0)] \<and>
   take 2 (column_values ''Distance_km'' (recent_activities rev_ties_argsort g21)) = [Num 21, Num 20] \<and>
   drop 19 (column_values ''Distance_km'' g21) = [Num 20, Num 21]"
proof -
  have r: "rows (recent_activities rev_ties_argsort g21) =
      map (\<lambda>i. (fst (rows g21 ! i), \<lambda>c. round1 (snd (rows g21 ! i) c)))
        [20, 19, 18, 17, 16, 15, 14, 13, 12, 11, 10, 9, 8, 7, 6, 5, 4, 3, 2, 1]"
    using rows_sort_index_desc[OF sorts_rev_ties_argsort, of "project (display_cols g21) g21"]
    by (simp add: recent_activities_def round_frame_def head_def project_def indexer_g21
        split_beta)
  have "take 2 (map fst (rows (recent_activities rev_ties_argsort g21))) =
     [(2023, 1, 20, 8, 0, 0), (2023, 1, 20, 8, 0, 0)]"
    unfolding r by (simp add: rows_g21)
  moreover have "take 2 (column_values ''Distance_km'' (recent_activities rev_ties_argsort g21)) =
     [Num 21, Num 20]"
    unfolding r column_values_def by (simp add: rows_g21 activity_def rint_def)
  moreover have "drop 19 (column_values ''Distance_km'' g21) = [Num 20, Num 21]"
    by (simp add: column_values_def rows_g21 activity_def)
  moreover have "sorted (map fst (rows g21))"
    unfolding keys_g21 by simp
  moreover have "20 < length (rows g21)" by (simp add: rows_g21)
  ultimately show ?thesis using sorts_rev_ties_argsort by simp
qed

section \<open>Further properties: the rows kept by the loader, the average speed\<close>

lemma to_datetime_Inr:
  "to_datetime rs = Inr trs \<Longrightarrow> rs = map (\<lambda>(t, r). (Some t, r)) trs"
proof (induction rs arbitrary: trs rule: to_datetime.induct)
  case 1
  then show ?case by simp
next
  case (2 r xs)
  then show ?case by simp
next
  case (3 t r xs)
  then show ?case by (auto split: sum.splits)
qed

lemma sort_index_mset:
  assumes "sorts a"
  shows "mset (rows (sort_index a True df)) = mset (rows df)"
proof (cases "sorted (map fst (rows df))")
  case True
  then show ?thesis by (simp add: sort_index_def)
next
  case False
  define ks where "ks = map fst (rows df)"
  have in_range: "filter (\<lambda>i. i < length (rows df)) (a ks) = a ks"
    using sorts_set[OF assms, of ks] by (auto simp: ks_def filter_id_conv)
  from assms have "mset (a ks) = mset [0..<length (rows df)]"
    by (metis sorts_def ks_def length_map)
  then have "mset (map (\<lambda>i. rows df ! i) (a ks)) = mset (rows df)"
    by (rule mset_map_nth)
  moreover from False
  have "rows (sort_index a True df) = map (\<lambda>i. rows df ! i) (a ks)"
    by (simp add: sort_index_def ks_def[symmetric] take_rows_def in_range)
  ultimately show ?thesis by (simp only:)
qed

text \<open>
  Lines 23-25 keep every row of the file: the table they build has the rows of
  the CSV, each once, in index order.
\<close>

lemma set_index_rows:
  assumes "sorts a" and "set_index a (Csv cols rs) = Inr d0"
  shows "mset (map (\<lambda>(t, r). (Some t, r)) (rows d0)) = mset rs"
    and "sorted (map fst (rows d0))"
proof -
  from assms(2) obtain trs where
    trs: "to_datetime rs = Inr trs" and
    d0: "d0 = sort_index a True \<lparr>columns = removeAll ''Activity Date'' cols, rows = trs\<rparr>"
    by (auto simp: set_index_def and_then_Inr split: if_splits)
  have "mset (rows d0) = mset trs"
    unfolding d0 using sort_index_mset[OF assms(1)] by simp
  then have "mset (map (\<lambda>(t, r). (Some t, r)) (rows d0)) = mset (map (\<lambda>(t, r). (Some t, r)) trs)"
    by (simp only: mset_map)
  with to_datetime_Inr[OF trs] show "mset (map (\<lambda>(t, r). (Some t, r)) (rows d0)) = mset rs"
    by simp
  show "sorted (map fst (rows d0))"
    by (rule set_index_sorted[OF assms])
qed

lemma positive_speed_rows_Num:
  assumes "\<And>x. x \<in> set (rows f) \<Longrightarrow> \<exists>v. snd x ''Average_Speed_kmh'' = Num v"
  shows "positive_speed_rows f =
           Inr (filter (\<lambda>x. \<exists>v. snd x ''Average_Speed_kmh'' = Num v \<and> 0 < v) (rows f))"
proof -
  have "traverse (\<lambda>x. gt_cell (snd x ''Average_Speed_kmh'') 0) xs =
          Inr (map (\<lambda>x. \<exists>v. snd x ''Average_Speed_kmh'' = Num v \<and> 0 < v) xs) \<and>
        map fst (filter snd (zip xs (map (\<lambda>x. \<exists>v. snd x ''Average_Speed_kmh'' = Num v \<and> 0 < v) xs))) =
          filter (\<lambda>x. \<exists>v. snd x ''Average_Speed_kmh'' = Num v \<and> 0 < v) xs"
    if "\<And>x. x \<in> set xs \<Longrightarrow> \<exists>v. snd x ''Average_Speed_kmh'' = Num v" for xs :: "(timestamp \<times> row) list"
    using that
  proof (induction xs)
    case Nil
    then show ?case by simp
  next
    case (Cons x xs)
    from Cons.prems[of x] obtain v where "snd x ''Average_Speed_kmh'' = Num v" by auto
    moreover from Cons have "traverse (\<lambda>x. gt_cell (snd x ''Average_Speed_kmh'') 0) xs =
          Inr (map (\<lambda>x. \<exists>v. snd x ''Average_Speed_kmh'' = Num v \<and> 0 < v) xs)"
      and "map fst (filter snd (zip xs (map (\<lambda>x. \<exists>v. snd x ''Average_Speed_kmh'' = Num v \<and> 0 < v) xs))) =
          filter (\<lambda>x. \<exists>v. snd x ''Average_Speed_kmh'' = Num v \<and> 0 < v) xs"
      by simp_all
    ultimately show ?case by simp
  qed
  from this[of "rows f"] assms show ?thesis
    by (simp add: positive_speed_rows_def and_then_def)
qed

lemma series_mean_Num:
  assumes "vs \<noteq> []"
  shows "series_mean (map Num vs) = Inr (Num (sum_list vs / of_nat (length vs)))"
proof -
  have "filter (\<lambda>c. c \<noteq> NaN) (map Num vs) = map Num vs"
    by (simp add: filter_id_conv)
  with assms show ?thesis
    by (simp add: series_mean_def series_sum_def sum_from_Num and_then_def)
qed

text \<open>
  Line 140 where it works: on a table whose speeds are numbers, one of them
  positive, the average speed is the arithmetic mean of the positive ones.
\<close>

lemma avg_speed_mean_of_positive:
  assumes "column_values ''Average_Speed_kmh'' f = map Num vs"
    and "filter (\<lambda>v. 0 < v) vs \<noteq> []"
  shows "avg_speed f =
           Inr (Num (sum_list (filter (\<lambda>v. 0 < v) vs) / of_nat (length (filter (\<lambda>v. 0 < v) vs))))"
proof -
  have num: "\<exists>v. snd x ''Average_Speed_kmh'' = Num v" if "x \<in> set (rows f)" for x
  proof -
    from that have "snd x ''Average_Speed_kmh'' \<in> set (column_values ''Average_Speed_kmh'' f)"
      by (auto simp: column_values_def)
    then show ?thesis unfolding assms(1) by auto
  qed
  have sel: "map (\<lambda>x. snd x ''Average_Speed_kmh'')
               (filter (\<lambda>x. \<exists>v. snd x ''Average_Speed_kmh'' = Num v \<and> 0 < v) (rows f)) =
             filter (\<lambda>c. \<exists>v. c = Num v \<and> 0 < v) (column_values ''Average_Speed_kmh'' f)"
    by (simp add: column_values_def filter_map o_def)
  have "filter (\<lambda>c. \<exists>v. c = Num v \<and> 0 < v) (map Num vs) = map Num (filter (\<lambda>v. 0 < v) vs)"
    by (simp add: filter_map o_def)
  with sel have "map (\<lambda>x. snd x ''Average_Speed_kmh'')
               (filter (\<lambda>x. \<exists>v. snd x ''Average_Speed_kmh'' = Num v \<and> 0 < v) (rows f)) =
             map Num (filter (\<lambda>v. 0 < v) vs)"
    by (simp add: assms(1))
  then show ?thesis
    by (simp add: avg_speed_def positive_speed_rows_Num[OF num] and_then_def
        series_mean_Num[OF assms(2)])
qed

end
